theory Spec2Isabelle
  imports Main
begin

section \<open>Python values used by microcline\<close>

text \<open>
  A Python \<open>str\<close> is a sequence of Unicode code points and \<open>len\<close> counts code points,
  so a string is a list of code points here. The sigils of the source are outside ASCII
  and are written by their code point.
\<close>

type_synonym pychar = nat
type_synonym pystr = "pychar list"

definition ascii :: "string \<Rightarrow> pystr" where
  "ascii s = map of_char s"

definition SPACE :: pychar where "SPACE = 32"

text \<open>The glyphs of the source: U+00B7, U+2770, U+2771, U+2716 and U+2026.\<close>

definition sigil_plain :: pystr where "sigil_plain = [183]"
definition sigil_prompt :: pystr where "sigil_prompt = [10096]"
definition sigil_command :: pystr where "sigil_command = [10097]"
definition sigil_error :: pystr where "sigil_error = [10006]"
definition ellipsis :: pystr where "ellipsis = [8230]"

text \<open>
  \<open>str.lstrip()\<close> without argument removes leading whitespace: the code points for which
  CPython's \<open>str.isspace\<close> holds.
\<close>

definition py_isspace :: "pychar \<Rightarrow> bool" where
  "py_isspace c \<longleftrightarrow>
     (9 \<le> c \<and> c \<le> 13) \<or> (28 \<le> c \<and> c \<le> 32) \<or> c = 133 \<or> c = 160 \<or> c = 5760 \<or>
     (8192 \<le> c \<and> c \<le> 8202) \<or> c = 8232 \<or> c = 8233 \<or> c = 8239 \<or> c = 8287 \<or> c = 12288"

definition lstrip :: "pystr \<Rightarrow> pystr" where
  "lstrip s = dropWhile py_isspace s"

text \<open>\<open>s.rfind(c)\<close> for a one-character \<open>c\<close>: the highest index of \<open>c\<close> in \<open>s\<close>, or \<open>-1\<close>.\<close>

primrec rfind :: "pychar \<Rightarrow> pystr \<Rightarrow> int" where
  "rfind c [] = - 1"
| "rfind c (x # xs) =
     (let r = rfind c xs in if 0 \<le> r then r + 1 else if x = c then 0 else - 1)"

text \<open>
  The slices \<open>s[:n]\<close> and \<open>s[n:]\<close>. A negative bound counts from the end, and a bound
  beyond either end is clamped: a slice never raises.
\<close>

definition slice_to :: "'a list \<Rightarrow> int \<Rightarrow> 'a list" where
  "slice_to xs n = (if n < 0 then take (nat (int (length xs) + n)) xs else take (nat n) xs)"

definition slice_from :: "'a list \<Rightarrow> int \<Rightarrow> 'a list" where
  "slice_from xs n = (if n < 0 then drop (nat (int (length xs) + n)) xs else drop (nat n) xs)"

text \<open>
  The exceptions of the source: the \<open>Exception\<close> that \<open>append\<close> raises on a chunk of a wrong
  type, the \<open>IndexError\<close> of an index out of range, and the \<open>ValueError\<close> of a deque
  created with a negative \<open>maxlen\<close>. A raise leaves the state as it is at that moment,
  so every operation returns its outcome together with the state.
\<close>

datatype pyerror = Exception | IndexError | ValueError

datatype 'a result = Return 'a | Raise pyerror

text \<open>
  The curses style attributes are integers, united by bitwise or. The three the source
  names have the values of ncurses: \<open>A_NORMAL = 0\<close>, \<open>A_DIM = 2^20\<close>, \<open>A_BOLD = 2^21\<close>.
\<close>

type_synonym style = int

definition A_NORMAL :: style where "A_NORMAL = 0"
definition A_DIM :: style where "A_DIM = 1048576"
definition A_BOLD :: style where "A_BOLD = 2097152"

definition style_union :: "style \<Rightarrow> style \<Rightarrow> style" where
  "style_union a b = or a b"

section \<open>The message box\<close>

text \<open>
  An argument of \<open>append\<close> is a value of any Python type. The source tells three cases
  apart by the name of the type: a \<open>str\<close>, a \<open>tuple\<close> (taken here to be the documented pair
  of a string and a style), and anything else.
\<close>

datatype chunk = StrChunk pystr | TupleChunk pystr style | OtherChunk

text \<open>A stored line is a list of pairs of a text and a style.\<close>

type_synonym line = "(pystr \<times> style) list"

text \<open>
  The fields of \<open>Msgbox\<close>. The scrollback \<open>history\<close> is a \<open>deque\<close> bounded by
  \<open>maxlen = h * 10\<close>, most recent line first.
\<close>

record msgbox =
  msg_h :: int
  msg_w :: int
  page_size :: int
  history_index :: int
  msg_history :: "line list"
  msg_maxlen :: nat

definition Msgbox_init :: "int \<Rightarrow> int \<Rightarrow> msgbox result" where
  "Msgbox_init h w =
     (if h * 10 < 0 then Raise ValueError
      else Return \<lparr> msg_h = h, msg_w = w, page_size = h div 3, history_index = 0,
                    msg_history = [], msg_maxlen = nat (h * 10) \<rparr>)"

text \<open>
  \<open>deque.appendleft\<close> on a bounded deque drops from the right end what exceeds \<open>maxlen\<close>;
  with \<open>maxlen = 0\<close> the deque stays empty.
\<close>

definition history_appendleft :: "line \<Rightarrow> msgbox \<Rightarrow> msgbox" where
  "history_appendleft l m = m\<lparr>msg_history := take (msg_maxlen m) (l # msg_history m)\<rparr>"

text \<open>\<open>self.history[0].append(c)\<close>; \<open>None\<close> is the \<open>IndexError\<close> of an empty deque.\<close>

definition history0_append :: "pystr \<times> style \<Rightarrow> msgbox \<Rightarrow> msgbox option" where
  "history0_append c m =
     (case msg_history m of
        [] \<Rightarrow> None
      | l # ls \<Rightarrow> Some (m\<lparr>msg_history := (l @ [c]) # ls\<rparr>))"

definition indent_line :: line where
  "indent_line = [([SPACE, SPACE], A_NORMAL)]"

text \<open>
  The \<open>while True\<close> loop of \<open>append\<close> for one phrase. It returns the line position after
  the phrase, or raises; \<open>None\<close> is a loop that never ends.
\<close>

partial_function (option) wrap_loop ::
  "msgbox \<Rightarrow> style \<Rightarrow> pystr \<Rightarrow> int \<Rightarrow> (int result \<times> msgbox) option" where
  "wrap_loop m style phrase0 line_position =
     (let phrase = (if line_position = 2 then lstrip phrase0 else phrase0);
          remaining_space = msg_w m - line_position
      in if int (length phrase) \<le> remaining_space then
           (case history0_append (phrase, style) m of
              None \<Rightarrow> Some (Raise IndexError, m)
            | Some m' \<Rightarrow> Some (Return (line_position + int (length phrase)), m'))
         else
           (let last_space = rfind SPACE (slice_to phrase remaining_space)
            in if 0 < last_space then
                 (case history0_append (slice_to phrase last_space, style) m of
                    None \<Rightarrow> Some (Raise IndexError, m)
                  | Some m' \<Rightarrow>
                      wrap_loop (history_appendleft indent_line m') style
                        (slice_from phrase last_space) 2)
               else if line_position = 2 then
                 (case history0_append (slice_to phrase remaining_space, style) m of
                    None \<Rightarrow> Some (Raise IndexError, m)
                  | Some m' \<Rightarrow>
                      wrap_loop (history_appendleft indent_line m') style
                        (slice_from phrase remaining_space) 2)
               else wrap_loop (history_appendleft indent_line m) style phrase 2))"

text \<open>The type test on a chunk; \<open>None\<close> is the chunk of a wrong type.\<close>

definition chunk_parts :: "chunk \<Rightarrow> (pystr \<times> style) option" where
  "chunk_parts c =
     (case c of
        StrChunk s \<Rightarrow> Some (s, A_NORMAL)
      | TupleChunk s st \<Rightarrow> Some (s, st)
      | OtherChunk \<Rightarrow> None)"

text \<open>The \<open>for chunk in chunks\<close> loop of \<open>append\<close>.\<close>

fun append_chunks :: "msgbox \<Rightarrow> int \<Rightarrow> chunk list \<Rightarrow> (unit result \<times> msgbox) option" where
  "append_chunks m line_position [] = Some (Return (), m)"
| "append_chunks m line_position (c # chunks) =
     (case chunk_parts c of
        None \<Rightarrow> Some (Raise Exception, m)
      | Some (phrase, style) \<Rightarrow>
          (case wrap_loop m style phrase line_position of
             None \<Rightarrow> None
           | Some (Raise e, m') \<Rightarrow> Some (Raise e, m')
           | Some (Return line_position', m') \<Rightarrow> append_chunks m' line_position' chunks))"

definition append :: "msgbox \<Rightarrow> chunk list \<Rightarrow> pystr \<Rightarrow> (unit result \<times> msgbox) option" where
  "append m chunks sigil =
     append_chunks (history_appendleft [(sigil @ [SPACE], A_NORMAL)] m) 2 chunks"

text \<open>\<open>Window.say\<close> and the paging of the message box need \<open>draw\<close>, defined next.\<close>

subsection \<open>Drawing\<close>

text \<open>
  The calls that \<open>draw\<close> makes on the curses window of the box, in order. The terminal
  layer is not part of the program: its calls are recorded, and they do not fail.
\<close>

datatype curses_op =
    Erase
  | AddstrAt int int pystr
  | Move int int
  | Addstr pystr style
  | Refresh

text \<open>
  Indexing a deque, \<open>d[i]\<close>: a negative index counts from the end, and an index out of
  range raises \<open>IndexError\<close> (\<open>None\<close>).
\<close>

definition deque_get :: "'a list \<Rightarrow> int \<Rightarrow> 'a option" where
  "deque_get xs i =
     (let n = int (length xs); j = (if i < 0 then i + n else i)
      in if 0 \<le> j \<and> j < n then Some (xs ! nat j) else None)"

text \<open>
  The test \<open>self.history_index == 0 and phrase[0] == "\<dots>"\<close> against the command sigil.
  The conjunction is evaluated left to right, so the first character is read only when
  the box is not paged; on an empty phrase that read raises \<open>IndexError\<close> (\<open>None\<close>).
\<close>

definition stale_test :: "msgbox \<Rightarrow> pystr \<Rightarrow> bool option" where
  "stale_test m phrase =
     (if history_index m = 0
      then (case phrase of [] \<Rightarrow> None | c # _ \<Rightarrow> Some ([c] = sigil_command))
      else Some False)"

text \<open>The inner loop of \<open>draw\<close> over the chunks of one line; it returns \<open>stale\<close>.\<close>

fun draw_chunks :: "msgbox \<Rightarrow> style \<Rightarrow> line \<Rightarrow> bool \<Rightarrow> bool result \<times> curses_op list" where
  "draw_chunks m line_style [] stale = (Return stale, [])"
| "draw_chunks m line_style ((phrase, chunk_style) # rest) stale =
     (case stale_test m phrase of
        None \<Rightarrow> (Raise IndexError, [])
      | Some b \<Rightarrow>
          (let (r, ops) = draw_chunks m line_style rest (b \<or> stale)
           in (r, Addstr phrase (style_union chunk_style line_style) # ops)))"

text \<open>The outer loop of \<open>draw\<close> over \<open>range(0, lines_to_print)\<close>.\<close>

fun draw_lines ::
  "msgbox \<Rightarrow> int \<Rightarrow> nat list \<Rightarrow> bool \<Rightarrow> style \<Rightarrow> unit result \<times> curses_op list" where
  "draw_lines m compensate_paging [] stale line_style = (Return (), [])"
| "draw_lines m compensate_paging (i # is) stale line_style =
     (let line_style' = (if stale then A_DIM else line_style);
          mv = Move (msg_h m - 1 - compensate_paging - int i) 0
      in case deque_get (msg_history m) (int i + history_index m) of
           None \<Rightarrow> (Raise IndexError, [mv])
         | Some ln \<Rightarrow>
             (case draw_chunks m line_style' ln stale of
                (Raise e, ops) \<Rightarrow> (Raise e, mv # ops)
              | (Return stale', ops) \<Rightarrow>
                  (let (r, ops') = draw_lines m compensate_paging is stale' line_style'
                   in (r, mv # ops @ ops'))))"

definition draw :: "msgbox \<Rightarrow> unit result \<times> curses_op list" where
  "draw m =
     (let compensate_paging = (if history_index m \<noteq> 0 then 1 else 0);
          indicator = (if history_index m \<noteq> 0
                       then [AddstrAt (msg_h m - 1) (msg_w m div 2) ellipsis] else []);
          lines_to_print = min (msg_h m - compensate_paging)
                               (int (length (msg_history m)) - history_index m);
          (r, ops) = draw_lines m compensate_paging [0..<nat lines_to_print] False A_NORMAL
      in (r, Erase # indicator @ ops @ (case r of Return _ \<Rightarrow> [Refresh] | Raise _ \<Rightarrow> [])))"

subsection \<open>Paging\<close>

definition page_up :: "msgbox \<Rightarrow> unit result \<times> msgbox" where
  "page_up m =
     (if int (length (msg_history m)) - history_index m > page_size m
      then (let m' = m\<lparr>history_index := history_index m + page_size m\<rparr>
            in (fst (draw m'), m'))
      else (Return (), m))"

definition page_down :: "msgbox \<Rightarrow> unit result \<times> msgbox" where
  "page_down m =
     (if history_index m \<ge> page_size m
      then (let m' = m\<lparr>history_index := history_index m - page_size m\<rparr>
            in (fst (draw m'), m'))
      else (Return (), m))"

section \<open>The command box and the window\<close>

text \<open>
  The window owns the message box and the command box; the fields of the command box
  that the input loop uses are \<open>w\<close>, the edit buffer \<open>chars\<close> (a list of one-character
  strings) and the command history, a deque with \<open>maxlen = 10\<close>.
\<close>

record window =
  debug_mode :: bool
  msgbox :: msgbox
  cmd_w :: int
  chars :: pystr
  cmd_history :: "pystr list"

text \<open>
  What the input loop takes from outside the window: the callbacks registered for keys,
  and the name curses gives a key (\<open>None\<close> when \<open>curses.has_key\<close> is false). A callback
  is any function on the window; it may raise, or never return.
\<close>

record env =
  custom_commands :: "int \<Rightarrow> (window \<Rightarrow> (unit result \<times> window) option) option"
  keyname :: "int \<Rightarrow> pystr option"

definition register ::
  "env \<Rightarrow> int \<Rightarrow> (window \<Rightarrow> (unit result \<times> window) option) \<Rightarrow> env" where
  "register e val func = e\<lparr>custom_commands := (custom_commands e)(val \<mapsto> func)\<rparr>"

text \<open>The key codes of curses that the source names.\<close>

definition KEY_DOWN :: int where "KEY_DOWN = 258"
definition KEY_UP :: int where "KEY_UP = 259"
definition KEY_BACKSPACE :: int where "KEY_BACKSPACE = 263"
definition KEY_NPAGE :: int where "KEY_NPAGE = 338"
definition KEY_PPAGE :: int where "KEY_PPAGE = 339"

text \<open>\<open>msgbox.append(\<dots>)\<close> followed by \<open>msgbox.draw()\<close>, as in \<open>Window.say\<close>.\<close>

definition append_draw :: "window \<Rightarrow> chunk list \<Rightarrow> pystr \<Rightarrow> (unit result \<times> window) option" where
  "append_draw win chunks sigil =
     (case append (msgbox win) chunks sigil of
        None \<Rightarrow> None
      | Some (Raise e, mb) \<Rightarrow> Some (Raise e, win\<lparr>msgbox := mb\<rparr>)
      | Some (Return _, mb) \<Rightarrow> Some (fst (draw mb), win\<lparr>msgbox := mb\<rparr>))"

definition say :: "window \<Rightarrow> chunk \<Rightarrow> (unit result \<times> window) option" where
  "say win message = append_draw win [message] sigil_plain"

text \<open>\<open>Cmdbox.draw\<close> writes the edit buffer, or its tail behind an ellipsis.\<close>

definition Cmdbox_draw :: "window \<Rightarrow> curses_op list" where
  "Cmdbox_draw win =
     (if int (length (chars win)) < cmd_w win
      then [Erase, AddstrAt 0 0 (chars win)]
      else [AddstrAt 0 0 (ellipsis @ slice_from (chars win) (- (cmd_w win - 2)))])"

text \<open>\<open>str(key)\<close>: the decimal digits of an integer.\<close>

function digits :: "nat \<Rightarrow> pystr" where
  "digits n = (if n < 10 then [48 + n] else digits (n div 10) @ [48 + n mod 10])"
  by pat_completeness auto
termination
  by (relation "measure id") auto

definition str_int :: "int \<Rightarrow> pystr" where
  "str_int i = (if i < 0 then 45 # digits (nat (- i)) else digits (nat i))"

text \<open>
  The key loop of \<open>Cmdbox.get\<close>, on the keys that \<open>getch\<close> delivers. It ends at the
  first enter key; when the keys run out before, \<open>getch\<close> blocks and the loop never returns
  (\<open>None\<close>). The interactive console behind Ctrl+D is outside the program and is taken to
  leave the window as it is.
\<close>

fun key_loop ::
  "env \<Rightarrow> window \<Rightarrow> int \<Rightarrow> int list \<Rightarrow> (unit result \<times> window) option" where
  "key_loop e win history_index' [] = None"
| "key_loop e win history_index' (k # ks) =
     (if 32 \<le> k \<and> k \<le> 126 then
        key_loop e (win\<lparr>chars := chars win @ [nat k]\<rparr>) history_index' ks
      else if k = 127 \<or> k = KEY_BACKSPACE then
        (if length (chars win) \<noteq> 0
         then key_loop e (win\<lparr>chars := butlast (chars win)\<rparr>) history_index' ks
         else key_loop e win history_index' ks)
      else if k = KEY_UP then
        (if history_index' < int (length (cmd_history win)) - 1
         then (case deque_get (cmd_history win) (history_index' + 1) of
                 None \<Rightarrow> Some (Raise IndexError, win)
               | Some entry \<Rightarrow> key_loop e (win\<lparr>chars := entry\<rparr>) (history_index' + 1) ks)
         else key_loop e win history_index' ks)
      else if k = KEY_DOWN then
        (if history_index' > 0
         then (case deque_get (cmd_history win) (history_index' - 1) of
                 None \<Rightarrow> Some (Raise IndexError, win)
               | Some entry \<Rightarrow> key_loop e (win\<lparr>chars := entry\<rparr>) (history_index' - 1) ks)
         else key_loop e win history_index' ks)
      else if k = KEY_PPAGE then
        (case page_up (msgbox win) of
           (Raise err, mb) \<Rightarrow> Some (Raise err, win\<lparr>msgbox := mb\<rparr>)
         | (Return _, mb) \<Rightarrow> key_loop e (win\<lparr>msgbox := mb\<rparr>) history_index' ks)
      else if k = KEY_NPAGE then
        (case page_down (msgbox win) of
           (Raise err, mb) \<Rightarrow> Some (Raise err, win\<lparr>msgbox := mb\<rparr>)
         | (Return _, mb) \<Rightarrow> key_loop e (win\<lparr>msgbox := mb\<rparr>) history_index' ks)
      else if k = 13 then Some (Return (), win)
      else if k = 4 then key_loop e win history_index' ks
      else (case custom_commands e k of
              Some func \<Rightarrow>
                (case func win of
                   None \<Rightarrow> None
                 | Some (Raise err, win') \<Rightarrow> Some (Raise err, win')
                 | Some (Return _, win') \<Rightarrow> key_loop e win' history_index' ks)
            | None \<Rightarrow>
                (if debug_mode win then
                   (let name = (case keyname e k of
                                  None \<Rightarrow> []
                                | Some n \<Rightarrow> ascii '' ('' @ n @ ascii '')'');
                        msg = ascii ''unhandled key: '' @ str_int k @ name
                    in case append_draw win [StrChunk msg] sigil_error of
                         None \<Rightarrow> None
                       | Some (Raise err, win') \<Rightarrow> Some (Raise err, win')
                       | Some (Return _, win') \<Rightarrow> key_loop e win' history_index' ks)
                 else key_loop e win history_index' ks)))"

text \<open>
  What \<open>get\<close> does after the loop: it echoes the stripped command, and remembers the
  edit buffer unless it equals the newest entry of the command history.
\<close>

definition cmd_history_appendleft :: "pystr \<Rightarrow> window \<Rightarrow> window" where
  "cmd_history_appendleft cs win = win\<lparr>cmd_history := take 10 (cs # cmd_history win)\<rparr>"

definition submit :: "window \<Rightarrow> (pystr result \<times> window) option" where
  "submit win =
     (let command = lstrip (chars win)
      in if command \<noteq> [] then
           (case append (msgbox win) [TupleChunk command A_BOLD] sigil_command of
              None \<Rightarrow> None
            | Some (Raise err, mb) \<Rightarrow> Some (Raise err, win\<lparr>msgbox := mb\<rparr>)
            | Some (Return _, mb) \<Rightarrow>
                (let win1 = win\<lparr>msgbox := mb\<rparr>;
                     win2 = (if length (cmd_history win1) = 0
                             then cmd_history_appendleft (chars win1) win1
                             else if chars win1 \<noteq> hd (cmd_history win1)
                                  then cmd_history_appendleft (chars win1) win1
                                  else win1)
                 in Some (Return command, win2\<lparr>chars := []\<rparr>)))
         else Some (Return command, win\<lparr>chars := []\<rparr>))"

text \<open>The first lines of \<open>get\<close>: a prompt other than \<open>None\<close> is appended and drawn.\<close>

definition show_prompt :: "window \<Rightarrow> chunk option \<Rightarrow> (unit result \<times> window) option" where
  "show_prompt win prompt =
     (case prompt of
        None \<Rightarrow> Some (Return (), win)
      | Some p \<Rightarrow> append_draw win [p] sigil_prompt)"

definition get :: "env \<Rightarrow> window \<Rightarrow> chunk option \<Rightarrow> int list \<Rightarrow> (pystr result \<times> window) option" where
  "get e win prompt keys =
     (case show_prompt win prompt of
        None \<Rightarrow> None
      | Some (Raise err, win0) \<Rightarrow> Some (Raise err, win0)
      | Some (Return _, win0) \<Rightarrow>
          (case key_loop e (win0\<lparr>chars := []\<rparr>) (- 1) keys of
             None \<Rightarrow> None
           | Some (Raise err, win1) \<Rightarrow> Some (Raise err, win1)
           | Some (Return _, win1) \<Rightarrow> submit win1))"

definition prompt :: "env \<Rightarrow> window \<Rightarrow> chunk \<Rightarrow> int list \<Rightarrow> (pystr result \<times> window) option" where
  "prompt e win p keys = get e win (Some p) keys"

section \<open>Predicates of the properties\<close>

text \<open>The number of characters a stored line occupies on the screen.\<close>

definition line_width :: "line \<Rightarrow> nat" where
  "line_width l = sum_list (map (\<lambda>c. length (fst c)) l)"

text \<open>Every line of the scrollback fits the width of the box.\<close>

definition lines_fit :: "msgbox \<Rightarrow> bool" where
  "lines_fit m \<longleftrightarrow> list_all (\<lambda>l. int (line_width l) \<le> msg_w m) (msg_history m)"

text \<open>
  The invariant of the wrap loop: every line fits, and \<open>line_position\<close> is the width of
  the line at the front, between 2 and the width of the box.
\<close>

definition wrap_inv :: "msgbox \<Rightarrow> int \<Rightarrow> bool" where
  "wrap_inv m line_position \<longleftrightarrow>
     lines_fit m \<and> 2 \<le> line_position \<and> line_position \<le> msg_w m \<and>
     (case msg_history m of [] \<Rightarrow> True | l # _ \<Rightarrow> int (line_width l) = line_position)"

text \<open>
  The states from which the wrap loop cannot leave when the box is at most 2 wide: at a
  fresh line of a scrollback that holds one, either no phrase ever fits (\<open>w \<le> 1\<close>), or
  the phrase has a visible character and no room at all (\<open>w = 2\<close>).
\<close>

definition narrow_stuck :: "msgbox \<Rightarrow> pystr \<Rightarrow> int \<Rightarrow> bool" where
  "narrow_stuck m phrase line_position \<longleftrightarrow>
     line_position = 2 \<and> msg_history m \<noteq> [] \<and> 1 \<le> msg_maxlen m \<and>
     (msg_w m \<le> 1 \<or> (msg_w m = 2 \<and> lstrip phrase \<noteq> []))"

text \<open>
  The text that each line holds behind its first chunk (the sigil or the indent), oldest
  line first, that is, in the order in which \<open>append\<close> produced the lines.
\<close>

definition fragments :: "line list \<Rightarrow> pystr list" where
  "fragments ls = map (\<lambda>l. concat (map fst (tl l))) (rev ls)"





section \<open>An example window\<close>

text \<open>
  The boxes of \<open>Window(height=24, width=80)\<close> on a terminal that is large enough: the
  message box is \<open>Msgbox(window, 20, 78, 1, 0)\<close> and the command box is
  \<open>Cmdbox(window, 1, 76, 22, 2)\<close>.
\<close>

definition example_msgbox :: msgbox where
  "example_msgbox = \<lparr> msg_h = 20, msg_w = 78, page_size = 6, history_index = 0,
                       msg_history = [], msg_maxlen = 200 \<rparr>"

definition example_window :: window where
  "example_window = \<lparr> debug_mode = False, msgbox = example_msgbox, cmd_w = 76,
                       chars = [], cmd_history = [] \<rparr>"

definition example_env :: env where
  "example_env = \<lparr> custom_commands = (\<lambda>k. None), keyname = (\<lambda>k. None) \<rparr>"

section \<open>Strings and slices\<close>

lemma rfind_less: "rfind c xs < int (length xs)"
  by (induction xs) (auto simp: Let_def)

lemma length_slice_to_le: "length (slice_to xs n) \<le> length xs"
  by (auto simp: slice_to_def)

lemma length_lstrip_le: "length (lstrip s) \<le> length s"
  by (simp add: lstrip_def length_dropWhile_le)

lemma rfind_slice_pos:
  assumes "0 < rfind c (slice_to s n)"
  shows "length (slice_from s (rfind c (slice_to s n))) < length s"
proof -
  have "rfind c (slice_to s n) < int (length (slice_to s n))" by (rule rfind_less)
  also have "\<dots> \<le> int (length s)" using length_slice_to_le [of s n] by simp
  finally show ?thesis using assms by (simp add: slice_from_def)
qed

section \<open>The wrap loop changes the scrollback only\<close>

lemma msg_w_appendleft [simp]: "msg_w (history_appendleft l m) = msg_w m"
  by (simp add: history_appendleft_def)

lemma msg_maxlen_appendleft [simp]: "msg_maxlen (history_appendleft l m) = msg_maxlen m"
  by (simp add: history_appendleft_def)

lemma history0_append_frame:
  "history0_append c m = Some m' \<Longrightarrow> m' = m\<lparr>msg_history := msg_history m'\<rparr>"
  by (auto simp: history0_append_def split: list.splits)

lemma msg_w_history0_append: "history0_append c m = Some m' \<Longrightarrow> msg_w m' = msg_w m"
  by (auto simp: history0_append_def split: list.splits)

lemma wrap_loop_frame:
  "wrap_loop m style phrase lp = Some y \<Longrightarrow> snd y = m\<lparr>msg_history := msg_history (snd y)\<rparr>"
proof (induction rule: wrap_loop.raw_induct[rotated, consumes 1, case_names 1])
  case (1 f m style phrase0 line_position y)
  have step: "snd y = m\<lparr>msg_history := msg_history (snd y)\<rparr>"
    if "f (history_appendleft indent_line m1) style p 2 = Some y"
      and "m1 = m\<lparr>msg_history := msg_history m1\<rparr>" for m1 p
  proof -
    have "snd y = (history_appendleft indent_line m1)\<lparr>msg_history := msg_history (snd y)\<rparr>"
      using that(1) by (rule "1"(1))
    also have "\<dots> = m1\<lparr>msg_history := msg_history (snd y)\<rparr>"
      by (simp add: history_appendleft_def)
    also have "\<dots> = m\<lparr>msg_history := msg_history (snd y)\<rparr>"
      by (subst that(2)) simp
    finally show ?thesis .
  qed
  show ?case
    using "1"(2) step history0_append_frame
    by (auto simp: Let_def split: if_splits option.splits)
qed

lemma wrap_loop_msg_w: "wrap_loop m style phrase lp = Some (r, m') \<Longrightarrow> msg_w m' = msg_w m"
  using wrap_loop_frame [of m style phrase lp "(r, m')"]
  by (metis msgbox.select_convs(2) msgbox.surjective msgbox.update_convs(5) snd_conv)

lemma append_chunks_frame:
  "append_chunks m lp chunks = Some (r, m') \<Longrightarrow> m' = m\<lparr>msg_history := msg_history m'\<rparr>"
proof (induction chunks arbitrary: m lp)
  case Nil
  then show ?case by simp
next
  case (Cons c chunks)
  show ?case
  proof (cases "chunk_parts c")
    case None
    with Cons.prems show ?thesis by simp
  next
    case (Some ps)
    obtain phrase style where ps: "ps = (phrase, style)" by (cases ps)
    from Cons.prems Some ps obtain r1 m1
      where w: "wrap_loop m style phrase lp = Some (r1, m1)"
      by (auto split: option.splits)
    have m1: "m1 = m\<lparr>msg_history := msg_history m1\<rparr>"
      using wrap_loop_frame [OF w] by simp
    show ?thesis
    proof (cases r1)
      case (Raise e)
      with Cons.prems Some ps w m1 show ?thesis by simp
    next
      case (Return lp')
      with Cons.prems Some ps w have "append_chunks m1 lp' chunks = Some (r, m')" by simp
      then have "m' = m1\<lparr>msg_history := msg_history m'\<rparr>" by (rule Cons.IH)
      also have "\<dots> = m\<lparr>msg_history := msg_history m'\<rparr>" by (subst m1) simp
      finally show ?thesis .
    qed
  qed
qed

lemma append_frame:
  "append m chunks sigil = Some (r, m') \<Longrightarrow> m' = m\<lparr>msg_history := msg_history m'\<rparr>"
proof -
  assume "append m chunks sigil = Some (r, m')"
  then have "m' = (history_appendleft [(sigil @ [SPACE], A_NORMAL)] m)\<lparr>msg_history := msg_history m'\<rparr>"
    unfolding append_def by (rule append_chunks_frame)
  then show ?thesis by (simp add: history_appendleft_def)
qed

section \<open>Termination of the wrap loop\<close>

text \<open>
  Twice the length of the phrase, plus one when the line position is not 2, decreases in
  every iteration of the loop once the box is at least 3 wide: a split at a space removes
  at least one character, a hard split removes \<open>w - 2\<close> characters, and the move to a
  fresh line happens only from a position other than 2.
\<close>

lemma wrap_loop_terminates:
  assumes "3 \<le> msg_w m"
  shows "\<exists>r. wrap_loop m style phrase lp = Some r"
  using assms
proof (induction "2 * length phrase + (if lp = 2 then 0 else 1)"
    arbitrary: m phrase lp rule: less_induct)
  case less
  define phrase' where "phrase' = (if lp = 2 then lstrip phrase else phrase)"
  define ls where "ls = rfind SPACE (slice_to phrase' (msg_w m - lp))"
  have len': "length phrase' \<le> length phrase"
    by (simp add: phrase'_def length_lstrip_le)
  have split_word:
    "\<exists>r. wrap_loop (history_appendleft indent_line m') style (slice_from phrase' ls) 2 = Some r"
    if "0 < ls" "msg_w m' = msg_w m" for m'
  proof (rule less.hyps)
    have "length (slice_from phrase' ls) < length phrase'"
      using that(1) unfolding ls_def by (rule rfind_slice_pos)
    then show "2 * length (slice_from phrase' ls) + (if (2::int) = 2 then 0 else 1)
        < 2 * length phrase + (if lp = 2 then 0 else 1)"
      using len' by simp
    show "3 \<le> msg_w (history_appendleft indent_line m')"
      using that(2) less.prems by simp
  qed
  have split_hard:
    "\<exists>r. wrap_loop (history_appendleft indent_line m') style
        (slice_from phrase' (msg_w m - lp)) 2 = Some r"
    if "lp = 2" "\<not> int (length phrase') \<le> msg_w m - lp" "msg_w m' = msg_w m" for m'
  proof (rule less.hyps)
    have "length (slice_from phrase' (msg_w m - lp)) < length phrase'"
      using that(1,2) less.prems by (simp add: slice_from_def)
    then show "2 * length (slice_from phrase' (msg_w m - lp)) + (if (2::int) = 2 then 0 else 1)
        < 2 * length phrase + (if lp = 2 then 0 else 1)"
      using len' by simp
    show "3 \<le> msg_w (history_appendleft indent_line m')"
      using that(3) less.prems by simp
  qed
  have next_line: "\<exists>r. wrap_loop (history_appendleft indent_line m) style phrase' 2 = Some r"
    if "lp \<noteq> 2"
  proof (rule less.hyps)
    show "2 * length phrase' + (if (2::int) = 2 then 0 else 1)
        < 2 * length phrase + (if lp = 2 then 0 else 1)"
      using that len' by simp
    show "3 \<le> msg_w (history_appendleft indent_line m)"
      using less.prems by simp
  qed
  show ?case
    apply (subst wrap_loop.simps)
    unfolding Let_def phrase'_def [symmetric] ls_def [symmetric]
    using split_word split_hard next_line
    by (auto split: option.splits dest: msg_w_history0_append)
qed

lemma append_chunks_terminates:
  "3 \<le> msg_w m \<Longrightarrow> \<exists>r. append_chunks m lp chunks = Some r"
proof (induction chunks arbitrary: m lp)
  case Nil
  show ?case by simp
next
  case (Cons c chunks)
  show ?case
  proof (cases "chunk_parts c")
    case None
    then show ?thesis by simp
  next
    case (Some ps)
    obtain phrase style where ps: "ps = (phrase, style)" by (cases ps)
    obtain r m' where w: "wrap_loop m style phrase lp = Some (r, m')"
      using wrap_loop_terminates [OF Cons.prems, of style phrase lp] by auto
    show ?thesis
    proof (cases r)
      case (Raise e)
      with Some ps w show ?thesis by simp
    next
      case (Return lp')
      have "3 \<le> msg_w m'" using wrap_loop_msg_w [OF w] Cons.prems by simp
      then obtain r' where "append_chunks m' lp' chunks = Some r'"
        using Cons.IH by blast
      with Some ps w Return show ?thesis by simp
    qed
  qed
qed

section \<open>Evaluation\<close>

lemmas append_eval =
  append_def history_appendleft_def history0_append_def chunk_parts_def wrap_loop.simps
  lstrip_def py_isspace_def slice_to_def slice_from_def SPACE_def indent_line_def
  A_NORMAL_def A_BOLD_def A_DIM_def ascii_def Let_def
  sigil_plain_def sigil_prompt_def sigil_command_def sigil_error_def

section \<open>Every line fits the box\<close>

lemma lines_fit_appendleft:
  "lines_fit m \<Longrightarrow> int (line_width l) \<le> msg_w m \<Longrightarrow> lines_fit (history_appendleft l m)"
  by (auto simp: lines_fit_def history_appendleft_def list_all_iff dest!: in_set_takeD)

lemma wrap_inv_appendleft:
  assumes "lines_fit m" "int (line_width l) = 2" "2 \<le> msg_w m"
  shows "wrap_inv (history_appendleft l m) 2"
proof -
  have "lines_fit (history_appendleft l m)"
    using assms by (simp add: lines_fit_appendleft)
  moreover have "case msg_history (history_appendleft l m) of [] \<Rightarrow> True
      | l' # _ \<Rightarrow> int (line_width l') = 2"
    using assms(2) by (cases "msg_maxlen m") (simp_all add: history_appendleft_def)
  ultimately show ?thesis using assms(3) by (simp add: wrap_inv_def)
qed

lemma line_width_indent [simp]: "line_width indent_line = 2"
  by (simp add: line_width_def indent_line_def)

lemma history0_append_inv:
  assumes "history0_append (t, s) m = Some m1" "wrap_inv m lp"
    "lp + int (length t) \<le> msg_w m"
  shows "wrap_inv m1 (lp + int (length t))"
  using assms
  by (auto simp: history0_append_def wrap_inv_def lines_fit_def line_width_def
      split: list.splits)

lemma wrap_inv_lines_fit: "wrap_inv m lp \<Longrightarrow> lines_fit m"
  by (simp add: wrap_inv_def)

lemma length_slice_to_nonneg: "0 \<le> n \<Longrightarrow> int (length (slice_to xs n)) \<le> n"
  by (simp add: slice_to_def)

lemma wrap_loop_inv:
  assumes "wrap_loop m style phrase lp = Some y" "wrap_inv m lp"
  shows "lines_fit (snd y) \<and> (\<forall>lp'. fst y = Return lp' \<longrightarrow> wrap_inv (snd y) lp')"
  using assms
proof (induction rule: wrap_loop.raw_induct[rotated, consumes 1, case_names 1])
  case (1 f m style phrase0 lp y)
  define phrase where "phrase = (if lp = 2 then lstrip phrase0 else phrase0)"
  define ls where "ls = rfind SPACE (slice_to phrase (msg_w m - lp))"
  note inv = \<open>wrap_inv m lp\<close>
  have rem: "0 \<le> msg_w m - lp" "2 \<le> msg_w m" using inv by (simp_all add: wrap_inv_def)
  have next_line: "lines_fit (snd y) \<and> (\<forall>lp'. fst y = Return lp' \<longrightarrow> wrap_inv (snd y) lp')"
    if "f (history_appendleft indent_line m1) style p 2 = Some y" "lines_fit m1"
      "msg_w m1 = msg_w m" for m1 p
    using that(1)
  proof (rule "1"(1))
    show "wrap_inv (history_appendleft indent_line m1) 2"
      using that(2,3) rem(2) by (simp add: wrap_inv_appendleft)
  qed
  have fragment: "lines_fit m1 \<and> msg_w m1 = msg_w m"
    if "history0_append (t, style) m = Some m1" "int (length t) \<le> msg_w m - lp" for t m1
  proof -
    have "lp + int (length t) \<le> msg_w m" using that(2) by linarith
    with that(1) inv have "wrap_inv m1 (lp + int (length t))"
      by (rule history0_append_inv)
    then show ?thesis
      using that(1) by (simp add: wrap_inv_lines_fit msg_w_history0_append)
  qed
  have ls_bound: "int (length (slice_to phrase ls)) \<le> msg_w m - lp" if "0 < ls"
  proof -
    have "int (length (slice_to phrase ls)) \<le> ls"
      using that by (simp add: length_slice_to_nonneg)
    also have "ls < int (length (slice_to phrase (msg_w m - lp)))"
      unfolding ls_def by (rule rfind_less)
    also have "\<dots> \<le> msg_w m - lp"
      using rem(1) by (rule length_slice_to_nonneg)
    finally show ?thesis by simp
  qed
  have hard_bound: "int (length (slice_to phrase (msg_w m - lp))) \<le> msg_w m - lp"
    using rem(1) by (rule length_slice_to_nonneg)
  show ?case
    using "1"(2) inv
    unfolding Let_def phrase_def [symmetric] ls_def [symmetric]
    using next_line fragment ls_bound hard_bound history0_append_inv [of _ style m _ lp]
      wrap_inv_lines_fit [OF inv]
    by (auto split: if_splits option.splits)
qed

lemma append_chunks_inv:
  "append_chunks m lp chunks = Some (r, m') \<Longrightarrow> wrap_inv m lp \<Longrightarrow> lines_fit m'"
proof (induction chunks arbitrary: m lp)
  case Nil
  then show ?case by (simp add: wrap_inv_lines_fit)
next
  case (Cons c chunks)
  show ?case
  proof (cases "chunk_parts c")
    case None
    with Cons.prems show ?thesis by (simp add: wrap_inv_lines_fit)
  next
    case (Some ps)
    obtain phrase style where ps: "ps = (phrase, style)" by (cases ps)
    from Cons.prems(1) Some ps obtain r1 m1
      where w: "wrap_loop m style phrase lp = Some (r1, m1)"
      by (auto split: option.splits)
    have post: "lines_fit m1 \<and> (\<forall>lp'. r1 = Return lp' \<longrightarrow> wrap_inv m1 lp')"
      using wrap_loop_inv [OF w Cons.prems(2)] by simp
    show ?thesis
    proof (cases r1)
      case (Raise e)
      with Cons.prems(1) Some ps w post show ?thesis by simp
    next
      case (Return lp')
      with Cons.prems(1) Some ps w have "append_chunks m1 lp' chunks = Some (r, m')" by simp
      moreover have "wrap_inv m1 lp'" using post Return by simp
      ultimately show ?thesis by (rule Cons.IH)
    qed
  qed
qed

lemma append_chunks_msg_w:
  "append_chunks m lp chunks = Some (r, m') \<Longrightarrow> msg_w m' = msg_w m"
proof (induction chunks arbitrary: m lp)
  case Nil
  then show ?case by simp
next
  case (Cons c chunks)
  then show ?case
    by (auto split: option.splits result.splits dest!: wrap_loop_msg_w)
qed

text \<open>
  C1: for every sequence of chunks, every width \<open>w > 2\<close> and a sigil of one glyph, if
  the lines of the scrollback fit the width before \<open>append\<close>, they all fit after it, whether
  it returns or raises: every line that \<open>append\<close> produces, its sigil or indent included,
  has at most \<open>w\<close> characters. In particular this holds from an empty scrollback, where
  every line is one that \<open>append\<close> produced.
\<close>

theorem append_width_invariant:
  assumes "2 < msg_w m" and "length sigil = 1" and "lines_fit m"
    and "append m chunks sigil = Some (r, m')"
  shows "lines_fit m' \<and> msg_w m' = msg_w m"
proof -
  have "wrap_inv (history_appendleft [(sigil @ [SPACE], A_NORMAL)] m) 2"
    using assms(1-3) by (intro wrap_inv_appendleft) (simp_all add: line_width_def)
  with assms(4) have "lines_fit m'"
    unfolding append_def by (rule append_chunks_inv)
  moreover have "msg_w m' = msg_w m"
    using assms(4) unfolding append_def by (auto dest: append_chunks_msg_w)
  ultimately show ?thesis by simp
qed

lemma append_forest:
  "append (example_msgbox\<lparr>msg_w := 10\<rparr>)
     [StrChunk (ascii ''You are standing in a ''), TupleChunk (ascii ''bright forest'') 512,
      StrChunk (ascii ''.'')] sigil_plain
   = Some (Return (), example_msgbox\<lparr>msg_w := 10, msg_history :=
       [[(ascii ''  '', 0), (ascii ''forest'', 512), (ascii ''.'', 0)],
        [(ascii ''  '', 0), (ascii ''bright'', 512)],
        [(ascii ''  '', 0), (ascii ''in a '', 0)],
        [(ascii ''  '', 0), (ascii ''standing'', 0)],
        [([183, 32], 0), (ascii ''You are'', 0)]]\<rparr>)"
  by (simp add: append_eval example_msgbox_def)

theorem append_width_invariant_witness:
  "2 < msg_w (example_msgbox\<lparr>msg_w := 10\<rparr>) \<and> length sigil_plain = 1 \<and>
   lines_fit (example_msgbox\<lparr>msg_w := 10\<rparr>) \<and>
   lines_fit (example_msgbox\<lparr>msg_w := 10, msg_history :=
       [[(ascii ''  '', 0), (ascii ''forest'', 512), (ascii ''.'', 0)],
        [(ascii ''  '', 0), (ascii ''bright'', 512)],
        [(ascii ''  '', 0), (ascii ''in a '', 0)],
        [(ascii ''  '', 0), (ascii ''standing'', 0)],
        [([183, 32], 0), (ascii ''You are'', 0)]]\<rparr>)"
  using append_width_invariant [OF _ _ _ append_forest]
  by (simp add: example_msgbox_def sigil_plain_def lines_fit_def)

section \<open>A box at most 2 wide\<close>

lemma lstrip_idem [simp]: "lstrip (lstrip s) = lstrip s"
  by (simp add: lstrip_def)

lemma history_appendleft_nonempty:
  "1 \<le> msg_maxlen m \<Longrightarrow> msg_history (history_appendleft l m) \<noteq> []"
  by (cases "msg_maxlen m") (simp_all add: history_appendleft_def)

lemma history0_append_Some:
  "msg_history m \<noteq> [] \<Longrightarrow> \<exists>m'. history0_append c m = Some m' \<and> msg_history m' \<noteq> []
     \<and> msg_w m' = msg_w m \<and> msg_maxlen m' = msg_maxlen m"
  by (cases "msg_history m") (simp_all add: history0_append_def)

lemma narrow_stuck_next:
  assumes "msg_history m1 \<noteq> []" "1 \<le> msg_maxlen m1"
    "msg_w m1 \<le> 1 \<or> (msg_w m1 = 2 \<and> lstrip p \<noteq> [])"
  shows "narrow_stuck (history_appendleft indent_line m1) p 2"
  using assms by (simp add: narrow_stuck_def history_appendleft_nonempty)

text \<open>
  From a stuck state every iteration of the loop leads to a stuck state: nothing fits,
  so a fragment (possibly empty) is stored and a fresh line is started.
\<close>

lemma wrap_loop_narrow:
  assumes "wrap_loop m style phrase lp = Some y"
  shows "\<not> narrow_stuck m phrase lp"
  using assms
proof (induction rule: wrap_loop.raw_induct[rotated, consumes 1, case_names 1])
  case (1 f m style phrase0 lp y)
  show ?case
  proof
    assume stuck: "narrow_stuck m phrase0 lp"
    then have lp: "lp = 2" and hist: "msg_history m \<noteq> []" and cap: "1 \<le> msg_maxlen m"
      and w: "msg_w m \<le> 1 \<or> (msg_w m = 2 \<and> lstrip phrase0 \<noteq> [])"
      by (simp_all add: narrow_stuck_def)
    define phrase where "phrase = lstrip phrase0"
    define ls where "ls = rfind SPACE (slice_to phrase (msg_w m - 2))"
    have nofit: "\<not> int (length phrase) \<le> msg_w m - 2"
      using w by (auto simp: phrase_def)
    have ls2: "\<not> 0 < ls" if "msg_w m = 2"
      using that by (simp add: ls_def slice_to_def)
    have rec: "f (history_appendleft indent_line m1) style p 2 \<noteq> Some y"
      if "msg_history m1 \<noteq> []" "msg_maxlen m1 = msg_maxlen m" "msg_w m1 = msg_w m"
        "msg_w m \<le> 1 \<or> (msg_w m = 2 \<and> lstrip p \<noteq> [])" for m1 p
    proof
      assume "f (history_appendleft indent_line m1) style p 2 = Some y"
      then have "\<not> narrow_stuck (history_appendleft indent_line m1) p 2" by (rule "1"(1))
      moreover have "narrow_stuck (history_appendleft indent_line m1) p 2"
        using that cap by (intro narrow_stuck_next) simp_all
      ultimately show False by contradiction
    qed
    obtain m1 where m1: "history0_append (slice_to phrase ls, style) m = Some m1"
      "msg_history m1 \<noteq> []" "msg_w m1 = msg_w m" "msg_maxlen m1 = msg_maxlen m"
      using history0_append_Some [OF hist] by blast
    obtain m2 where m2: "history0_append (slice_to phrase (msg_w m - 2), style) m = Some m2"
      "msg_history m2 \<noteq> []" "msg_w m2 = msg_w m" "msg_maxlen m2 = msg_maxlen m"
      using history0_append_Some [OF hist] by blast
    have hard: "msg_w m \<le> 1 \<or> (msg_w m = 2 \<and> lstrip (slice_from phrase (msg_w m - 2)) \<noteq> [])"
      using w by (auto simp: slice_from_def phrase_def)
    show False
    proof (cases "0 < ls")
      case True
      then have "msg_w m \<le> 1" using ls2 w by auto
      then have "f (history_appendleft indent_line m1) style (slice_from phrase ls) 2 \<noteq> Some y"
        using m1 by (intro rec) simp_all
      then show False
        using "1"(2) nofit True m1(1) lp
        by (simp add: Let_def phrase_def [symmetric] ls_def [symmetric])
    next
      case False
      have "f (history_appendleft indent_line m2) style (slice_from phrase (msg_w m - 2)) 2
          \<noteq> Some y"
        using m2 hard by (intro rec) simp_all
      then show False
        using "1"(2) nofit False m2(1) lp
        by (simp add: Let_def phrase_def [symmetric] ls_def [symmetric])
    qed
  qed
qed

lemma wrap_loop_narrow_None:
  "narrow_stuck m phrase lp \<Longrightarrow> wrap_loop m style phrase lp = None"
  using wrap_loop_narrow [of m style phrase lp] by (cases "wrap_loop m style phrase lp") auto

text \<open>
  With room for one line in the scrollback the wrap loop never raises, whatever the
  width: its only raise is the \<open>IndexError\<close> of an empty scrollback.
\<close>

lemma wrap_loop_no_raise:
  assumes "wrap_loop m style phrase lp = Some y" "msg_history m \<noteq> []" "1 \<le> msg_maxlen m"
  shows "(\<exists>lp'. fst y = Return lp') \<and> msg_history (snd y) \<noteq> []
    \<and> msg_maxlen (snd y) = msg_maxlen m"
  using assms
proof (induction rule: wrap_loop.raw_induct[rotated, consumes 1, case_names 1])
  case (1 f m style phrase0 lp y)
  have rec: "(\<exists>lp'. fst y = Return lp') \<and> msg_history (snd y) \<noteq> []
      \<and> msg_maxlen (snd y) = msg_maxlen m"
    if "f (history_appendleft indent_line m1) style p 2 = Some y"
      "msg_maxlen m1 = msg_maxlen m" for m1 p
    using "1"(1) [OF that(1)] that(2) "1"(4) by (simp add: history_appendleft_nonempty)
  show ?case
    using "1"(2) history0_append_Some [OF "1"(3)] rec [of m] rec
    apply (simp add: Let_def split: if_splits option.splits)
    by (metis fst_conv snd_conv option.inject option.distinct(1))+
qed

lemma append_chunks_no_raise:
  assumes "append_chunks m lp chunks = Some (r, m')" "msg_history m \<noteq> []"
    "1 \<le> msg_maxlen m" "list_all (\<lambda>c. c \<noteq> OtherChunk) chunks"
  shows "r = Return ()"
  using assms
proof (induction chunks arbitrary: m lp)
  case Nil
  then show ?case by simp
next
  case (Cons c chunks)
  from Cons.prems(4) obtain phrase style where c: "chunk_parts c = Some (phrase, style)"
    by (cases c) (simp_all add: chunk_parts_def)
  from Cons.prems(1) c obtain y where w: "wrap_loop m style phrase lp = Some y"
    by (auto split: option.splits)
  from wrap_loop_no_raise [OF w Cons.prems(2,3)] obtain lp' m1
    where y: "y = (Return lp', m1)" "msg_history m1 \<noteq> []" "msg_maxlen m1 = msg_maxlen m"
    by (cases y) auto
  from Cons.prems(1) c w y have "append_chunks m1 lp' chunks = Some (r, m')" by simp
  then show ?case
    using y Cons.prems(3,4) by (intro Cons.IH [of m1 lp']) simp_all
qed

text \<open>
  C2, as the code has it: \<open>append\<close> does not look at the width. In a box at most 2 wide
  whose scrollback has room for a line, \<open>append\<close> of strings and pairs never raises; when
  the text of the first chunk has a character that is not whitespace, the wrap loop
  never ends, so the call neither returns nor raises.
\<close>

theorem append_narrow_no_error:
  assumes "msg_w m \<le> 2" and "1 \<le> msg_maxlen m"
    and "chunk_parts c = Some (phrase, style)" and "list_all (\<lambda>c'. c' \<noteq> OtherChunk) chunks"
  shows "append m (c # chunks) sigil \<noteq> Some (Raise e, m') \<and>
    (lstrip phrase \<noteq> [] \<longrightarrow> append m (c # chunks) sigil = None)"
proof
  let ?m0 = "history_appendleft [(sigil @ [SPACE], A_NORMAL)] m"
  have hist: "msg_history ?m0 \<noteq> []" using assms(2) by (rule history_appendleft_nonempty)
  have c: "c \<noteq> OtherChunk" using assms(3) by (auto simp: chunk_parts_def)
  show "append m (c # chunks) sigil \<noteq> Some (Raise e, m')"
  proof
    assume "append m (c # chunks) sigil = Some (Raise e, m')"
    then have "append_chunks ?m0 2 (c # chunks) = Some (Raise e, m')" by (simp add: append_def)
    then have "Raise e = Return ()"
      using hist assms(2,4) c by (intro append_chunks_no_raise [of ?m0 2 "c # chunks" _ m']) simp_all
    then show False by simp
  qed
  show "lstrip phrase \<noteq> [] \<longrightarrow> append m (c # chunks) sigil = None"
  proof
    assume "lstrip phrase \<noteq> []"
    then have "narrow_stuck ?m0 phrase 2"
      using assms(1,2) hist by (auto simp: narrow_stuck_def)
    then have "wrap_loop ?m0 style phrase 2 = None" by (rule wrap_loop_narrow_None)
    then show "append m (c # chunks) sigil = None"
      using assms(3) by (simp add: append_def)
  qed
qed

theorem append_narrow_no_error_witness:
  "msg_w (example_msgbox\<lparr>msg_w := 2\<rparr>) \<le> 2 \<and> 1 \<le> msg_maxlen (example_msgbox\<lparr>msg_w := 2\<rparr>) \<and>
   chunk_parts (StrChunk (ascii ''go'')) = Some (ascii ''go'', A_NORMAL) \<and>
   list_all (\<lambda>c'. c' \<noteq> OtherChunk) [TupleChunk (ascii ''north'') A_BOLD] \<and>
   lstrip (ascii ''go'') \<noteq> [] \<and>
   append (example_msgbox\<lparr>msg_w := 2\<rparr>)
     [StrChunk (ascii ''go''), TupleChunk (ascii ''north'') A_BOLD] sigil_plain
     \<noteq> Some (Raise IndexError, example_msgbox) \<and>
   append (example_msgbox\<lparr>msg_w := 2\<rparr>)
     [StrChunk (ascii ''go''), TupleChunk (ascii ''north'') A_BOLD] sigil_plain = None"
  using append_narrow_no_error [of "example_msgbox\<lparr>msg_w := 2\<rparr>" "StrChunk (ascii ''go'')"
      "ascii ''go''" A_NORMAL "[TupleChunk (ascii ''north'') A_BOLD]" sigil_plain IndexError
      example_msgbox]
  by (simp add: example_msgbox_def chunk_parts_def ascii_def lstrip_def py_isspace_def)

text \<open>
  At width 2 a chunk of one space is laid out without any error, and a chunk with a
  visible character makes \<open>append\<close> run for ever: no error reaches the caller.
\<close>

theorem append_narrow_counterexample:
  "append (example_msgbox\<lparr>msg_w := 2\<rparr>) [StrChunk (ascii '' '')] sigil_plain
     = Some (Return (), example_msgbox\<lparr>msg_w := 2,
         msg_history := [[([183, 32], A_NORMAL), ([], A_NORMAL)]]\<rparr>) \<and>
   append (example_msgbox\<lparr>msg_w := 2\<rparr>) [StrChunk (ascii ''go'')] sigil_plain = None"
proof
  show "append (example_msgbox\<lparr>msg_w := 2\<rparr>) [StrChunk (ascii '' '')] sigil_plain
     = Some (Return (), example_msgbox\<lparr>msg_w := 2,
         msg_history := [[([183, 32], A_NORMAL), ([], A_NORMAL)]]\<rparr>)"
    by (simp add: append_eval example_msgbox_def)
  have "narrow_stuck (history_appendleft [(sigil_plain @ [SPACE], A_NORMAL)]
      (example_msgbox\<lparr>msg_w := 2\<rparr>)) (ascii ''go'') 2"
    by (simp add: narrow_stuck_def history_appendleft_def example_msgbox_def ascii_def
        lstrip_def py_isspace_def)
  then have "wrap_loop (history_appendleft [(sigil_plain @ [SPACE], A_NORMAL)]
      (example_msgbox\<lparr>msg_w := 2\<rparr>)) A_NORMAL (ascii ''go'') 2 = None"
    by (rule wrap_loop_narrow_None)
  then show "append (example_msgbox\<lparr>msg_w := 2\<rparr>) [StrChunk (ascii ''go'')] sigil_plain = None"
    by (simp add: append_def chunk_parts_def)
qed

section \<open>Termination of append\<close>

text \<open>
  C9: for every width \<open>w \<ge> 3\<close> and every sequence of chunks, \<open>append\<close> terminates:
  the wrap loop never runs for ever, so the call returns or raises. When the chunks are
  strings or pairs and the scrollback has room for a line, it returns normally.
\<close>

theorem append_terminates:
  assumes "3 \<le> msg_w m"
  shows "(\<exists>r. append m chunks sigil = Some r) \<and>
    (1 \<le> msg_maxlen m \<longrightarrow> list_all (\<lambda>c. c \<noteq> OtherChunk) chunks \<longrightarrow>
       (\<exists>m'. append m chunks sigil = Some (Return (), m')))"
proof (intro conjI impI)
  let ?m0 = "history_appendleft [(sigil @ [SPACE], A_NORMAL)] m"
  have "3 \<le> msg_w ?m0" using assms by simp
  then obtain r m' where r: "append_chunks ?m0 2 chunks = Some (r, m')"
    using append_chunks_terminates [of ?m0 2 chunks] by auto
  then show "\<exists>r. append m chunks sigil = Some r" by (simp add: append_def)
  assume cap: "1 \<le> msg_maxlen m" and valid: "list_all (\<lambda>c. c \<noteq> OtherChunk) chunks"
  have "msg_history ?m0 \<noteq> []" using cap by (rule history_appendleft_nonempty)
  with r have "r = Return ()"
    using cap valid by (intro append_chunks_no_raise [of ?m0 2 chunks r m']) simp_all
  with r show "\<exists>m'. append m chunks sigil = Some (Return (), m')" by (simp add: append_def)
qed

theorem append_terminates_witness:
  "3 \<le> msg_w example_msgbox \<and> 1 \<le> msg_maxlen example_msgbox \<and>
   list_all (\<lambda>c. c \<noteq> OtherChunk)
     [StrChunk (ascii ''You see a ''), TupleChunk (ascii ''goblin'') 512, StrChunk (ascii ''.'')] \<and>
   (\<exists>m'. append example_msgbox [StrChunk (ascii ''You see a ''), TupleChunk (ascii ''goblin'') 512,
      StrChunk (ascii ''.'')] sigil_plain = Some (Return (), m'))"
  using append_terminates [of example_msgbox
      "[StrChunk (ascii ''You see a ''), TupleChunk (ascii ''goblin'') 512, StrChunk (ascii ''.'')]"
      sigil_plain]
  by (simp add: example_msgbox_def)

section \<open>A chunk of a wrong type\<close>

lemma append_chunks_invalid:
  "append_chunks m lp pre = Some (Return (), m') \<Longrightarrow>
   append_chunks m lp (pre @ OtherChunk # post) = Some (Raise Exception, m')"
proof (induction pre arbitrary: m lp)
  case Nil
  then show ?case by (simp add: chunk_parts_def)
next
  case (Cons c pre)
  then show ?case
    by (auto split: option.splits result.splits)
qed

text \<open>
  C3, as the code has it: \<open>append\<close> pushes the sigil line and lays the chunks out one
  by one before it looks at the next chunk. When the chunks before the first one of a
  wrong type lay out normally, the call raises \<open>Exception\<close>, and the scrollback is then
  what the call with the preceding chunks alone leaves: nothing is undone.
\<close>

theorem append_invalid_chunk_keeps_lines:
  assumes "append m pre sigil = Some (Return (), m')"
  shows "append m (pre @ OtherChunk # post) sigil = Some (Raise Exception, m')"
  using assms unfolding append_def by (rule append_chunks_invalid)

lemma append_you_see:
  "append example_msgbox [StrChunk (ascii ''You see a '')] sigil_plain
   = Some (Return (), example_msgbox\<lparr>msg_history :=
       [[([183, 32], A_NORMAL), (ascii ''You see a '', A_NORMAL)]]\<rparr>)"
  by (simp add: append_eval example_msgbox_def)

theorem append_invalid_chunk_keeps_lines_witness:
  "append example_msgbox [StrChunk (ascii ''You see a '')] sigil_plain
     = Some (Return (), example_msgbox\<lparr>msg_history :=
         [[([183, 32], A_NORMAL), (ascii ''You see a '', A_NORMAL)]]\<rparr>) \<and>
   append example_msgbox ([StrChunk (ascii ''You see a '')] @ OtherChunk # [StrChunk (ascii ''.'')])
       sigil_plain
     = Some (Raise Exception, example_msgbox\<lparr>msg_history :=
         [[([183, 32], A_NORMAL), (ascii ''You see a '', A_NORMAL)]]\<rparr>)"
  using append_invalid_chunk_keeps_lines [OF append_you_see, of "[StrChunk (ascii ''.'')]"]
    append_you_see
  by simp

text \<open>
  A call whose second chunk has a wrong type raises, and the scrollback, empty before the
  call, then holds the sigil line with the first chunk.
\<close>

theorem append_not_atomic_counterexample:
  "append example_msgbox [StrChunk (ascii ''You see a ''), OtherChunk] sigil_plain
     = Some (Raise Exception, example_msgbox\<lparr>msg_history :=
         [[([183, 32], A_NORMAL), (ascii ''You see a '', A_NORMAL)]]\<rparr>) \<and>
   msg_history (example_msgbox\<lparr>msg_history :=
         [[([183, 32], A_NORMAL), (ascii ''You see a '', A_NORMAL)]]\<rparr>)
     \<noteq> msg_history example_msgbox"
  by (simp add: append_eval example_msgbox_def)

section \<open>A word longer than the box\<close>

text \<open>
  C8: wrapping the single chunk \<open>supercalifragilisticexpialidocious\<close> in a fresh box of
  width 10 produces five lines; behind the sigil or the indent of two columns they hold
  fragments of 8, 8, 8, 8 and 2 characters, whose concatenation is the word.
\<close>

theorem long_word_hard_split:
  "Msgbox_init 20 10 = Return (example_msgbox\<lparr>msg_w := 10\<rparr>) \<and>
   append (example_msgbox\<lparr>msg_w := 10\<rparr>)
     [StrChunk (ascii ''supercalifragilisticexpialidocious'')] sigil_plain
   = Some (Return (), example_msgbox\<lparr>msg_w := 10, msg_history :=
       [[(ascii ''  '', A_NORMAL), (ascii ''us'', A_NORMAL)],
        [(ascii ''  '', A_NORMAL), (ascii ''alidocio'', A_NORMAL)],
        [(ascii ''  '', A_NORMAL), (ascii ''sticexpi'', A_NORMAL)],
        [(ascii ''  '', A_NORMAL), (ascii ''ifragili'', A_NORMAL)],
        [(sigil_plain @ ascii '' '', A_NORMAL), (ascii ''supercal'', A_NORMAL)]]\<rparr>) \<and>
   map length (fragments
       [[(ascii ''  '', A_NORMAL), (ascii ''us'', A_NORMAL)],
        [(ascii ''  '', A_NORMAL), (ascii ''alidocio'', A_NORMAL)],
        [(ascii ''  '', A_NORMAL), (ascii ''sticexpi'', A_NORMAL)],
        [(ascii ''  '', A_NORMAL), (ascii ''ifragili'', A_NORMAL)],
        [(sigil_plain @ ascii '' '', A_NORMAL), (ascii ''supercal'', A_NORMAL)]])
     = [8, 8, 8, 8, 2] \<and>
   concat (fragments
       [[(ascii ''  '', A_NORMAL), (ascii ''us'', A_NORMAL)],
        [(ascii ''  '', A_NORMAL), (ascii ''alidocio'', A_NORMAL)],
        [(ascii ''  '', A_NORMAL), (ascii ''sticexpi'', A_NORMAL)],
        [(ascii ''  '', A_NORMAL), (ascii ''ifragili'', A_NORMAL)],
        [(sigil_plain @ ascii '' '', A_NORMAL), (ascii ''supercal'', A_NORMAL)]])
     = ascii ''supercalifragilisticexpialidocious''"
  by (simp add: append_eval example_msgbox_def Msgbox_init_def fragments_def)

section \<open>Drawing the scrollback\<close>

lemmas draw_eval =
  draw_def stale_test_def deque_get_def style_union_def Let_def upt_rec
  A_NORMAL_def A_DIM_def A_BOLD_def sigil_command_def ellipsis_def ascii_def


lemma deque_get_in_range:
  "0 \<le> i \<Longrightarrow> i < int (length xs) \<Longrightarrow> deque_get xs i = Some (xs ! nat i)"
  by (simp add: deque_get_def Let_def)





section \<open>Stale lines\<close>

text \<open>
  The scrollback of the staleness example, most recent first: two plain lines, the
  command line, two plain lines. Not paged, \<open>draw\<close> writes the three newer lines, bottom
  up, in their own styles and the two older lines with \<open>A_DIM\<close> united to each style.
\<close>

lemma draw_staleness_example:
  "draw (example_msgbox\<lparr>msg_history :=
     [[([183, 32], A_NORMAL), (ascii ''It is dark.'', A_NORMAL)],
      [([183, 32], A_NORMAL), (ascii ''You go north.'', A_NORMAL)],
      [([10097, 32], A_NORMAL), (ascii ''go north'', A_BOLD)],
      [([183, 32], A_NORMAL), (ascii ''You see a '', A_NORMAL), (ascii ''door'', 512)],
      [([183, 32], A_NORMAL), (ascii ''You wake up.'', A_NORMAL)]]\<rparr>)
   = (Return (),
      [Erase,
       Move 19 0, Addstr [183, 32] A_NORMAL, Addstr (ascii ''It is dark.'') A_NORMAL,
       Move 18 0, Addstr [183, 32] A_NORMAL, Addstr (ascii ''You go north.'') A_NORMAL,
       Move 17 0, Addstr [10097, 32] A_NORMAL, Addstr (ascii ''go north'') A_BOLD,
       Move 16 0, Addstr [183, 32] A_DIM, Addstr (ascii ''You see a '') A_DIM,
         Addstr (ascii ''door'') (style_union 512 A_DIM),
       Move 15 0, Addstr [183, 32] A_DIM, Addstr (ascii ''You wake up.'') A_DIM,
       Refresh])"
  by (simp add: draw_eval example_msgbox_def)

text \<open>Paged by one line, the same scrollback is drawn without \<open>A_DIM\<close>.\<close>

lemma draw_paged_example:
  "draw (example_msgbox\<lparr>history_index := 1, msg_history :=
     [[([183, 32], A_NORMAL), (ascii ''It is dark.'', A_NORMAL)],
      [([183, 32], A_NORMAL), (ascii ''You go north.'', A_NORMAL)],
      [([10097, 32], A_NORMAL), (ascii ''go north'', A_BOLD)],
      [([183, 32], A_NORMAL), (ascii ''You see a '', A_NORMAL), (ascii ''door'', 512)],
      [([183, 32], A_NORMAL), (ascii ''You wake up.'', A_NORMAL)]]\<rparr>)
   = (Return (),
      [Erase, AddstrAt 19 39 ellipsis,
       Move 18 0, Addstr [183, 32] A_NORMAL, Addstr (ascii ''You go north.'') A_NORMAL,
       Move 17 0, Addstr [10097, 32] A_NORMAL, Addstr (ascii ''go north'') A_BOLD,
       Move 16 0, Addstr [183, 32] A_NORMAL, Addstr (ascii ''You see a '') A_NORMAL,
         Addstr (ascii ''door'') 512,
       Move 15 0, Addstr [183, 32] A_NORMAL, Addstr (ascii ''You wake up.'') A_NORMAL,
       Refresh])"
  by (simp add: draw_eval example_msgbox_def)

lemma draw_chunks_paged:
  "history_index m \<noteq> 0 \<Longrightarrow>
   draw_chunks m ls ln stale
     = (Return stale, map (\<lambda>c. Addstr (fst c) (style_union (snd c) ls)) ln)"
  by (induction ln arbitrary: stale) (auto simp: stale_test_def)

lemma draw_lines_paged:
  assumes "history_index m \<noteq> 0"
    and "list_all (\<lambda>i. 0 \<le> int i + history_index m
          \<and> int i + history_index m < int (length (msg_history m))) idxs"
  shows "draw_lines m cpg idxs False A_NORMAL
     = (Return (), concat (map (\<lambda>i. Move (msg_h m - 1 - cpg - int i) 0
          # map (\<lambda>c. Addstr (fst c) (style_union (snd c) A_NORMAL))
              (msg_history m ! nat (int i + history_index m))) idxs))"
  using assms(2)
proof (induction idxs)
  case Nil
  show ?case by simp
next
  case (Cons i idxs)
  from Cons.prems have "deque_get (msg_history m) (int i + history_index m)
      = Some (msg_history m ! nat (int i + history_index m))"
    by (intro deque_get_in_range) simp_all
  moreover have "draw_lines m cpg idxs False A_NORMAL
     = (Return (), concat (map (\<lambda>i. Move (msg_h m - 1 - cpg - int i) 0
          # map (\<lambda>c. Addstr (fst c) (style_union (snd c) A_NORMAL))
              (msg_history m ! nat (int i + history_index m))) idxs))"
    using Cons.prems by (intro Cons.IH) simp
  ultimately show ?case
    using assms(1) by (simp add: Let_def draw_chunks_paged)
qed


lemma style_union_normal: "style_union s A_NORMAL = s"
  by (simp add: style_union_def A_NORMAL_def)

text \<open>
  While the box is paged, \<open>draw\<close> writes the paging indicator and then every chunk of
  every visible line in the chunk's own style: no line is dimmed.
\<close>

lemma draw_paged_undimmed:
  assumes "0 < history_index m"
  shows "draw m = (Return (),
      Erase # AddstrAt (msg_h m - 1) (msg_w m div 2) ellipsis
        # concat (map (\<lambda>i. Move (msg_h m - 1 - 1 - int i) 0
              # map (\<lambda>c. Addstr (fst c) (snd c)) (msg_history m ! nat (int i + history_index m)))
            [0..<nat (min (msg_h m - 1) (int (length (msg_history m)) - history_index m))])
        @ [Refresh])"
proof -
  define n where "n = min (msg_h m - 1) (int (length (msg_history m)) - history_index m)"
  have "list_all (\<lambda>i. 0 \<le> int i + history_index m
          \<and> int i + history_index m < int (length (msg_history m))) [0..<nat n]"
    using assms by (auto simp: list_all_iff n_def)
  with assms have "draw_lines m 1 [0..<nat n] False A_NORMAL
     = (Return (), concat (map (\<lambda>i. Move (msg_h m - 1 - 1 - int i) 0
          # map (\<lambda>c. Addstr (fst c) (style_union (snd c) A_NORMAL))
              (msg_history m ! nat (int i + history_index m))) [0..<nat n]))"
    by (intro draw_lines_paged) simp_all
  then show ?thesis
    using assms by (simp add: draw_def Let_def n_def [symmetric] style_union_normal)
qed

text \<open>
  While the box is not paged, the chunks of a line are written with the style of the
  line united to their own, and the line makes the lines after it stale as soon as the
  text of any of its chunks begins with the glyph of the command sigil.
\<close>

lemma draw_chunks_unpaged:
  "history_index m = 0 \<Longrightarrow> list_all (\<lambda>c. fst c \<noteq> []) ln \<Longrightarrow>
   draw_chunks m ls ln stale
     = (Return (stale \<or> list_ex (\<lambda>c. take 1 (fst c) = sigil_command) ln),
        map (\<lambda>c. Addstr (fst c) (style_union (snd c) ls)) ln)"
proof (induction ln arbitrary: stale)
  case Nil
  show ?case by simp
next
  case (Cons c ln)
  obtain phrase chunk_style where c: "c = (phrase, chunk_style)" by (cases c)
  from Cons.prems c obtain x xs where phrase: "phrase = x # xs" by (cases phrase) simp_all
  have "draw_chunks m ls ln ([x] = sigil_command \<or> stale)
     = (Return (([x] = sigil_command \<or> stale) \<or> list_ex (\<lambda>c. take 1 (fst c) = sigil_command) ln),
        map (\<lambda>c. Addstr (fst c) (style_union (snd c) ls)) ln)"
    using Cons.prems by (intro Cons.IH) simp_all
  then show ?case
    using Cons.prems(1) c phrase by (auto simp: stale_test_def)
qed

text \<open>
  C4 at an input where the code departs from it: the scrollback holds two plain lines,
  and the text of the newer one begins with the glyph of the command sigil. No line has
  the command sigil as its leading glyph, yet \<open>draw\<close> writes the older line with
  \<open>A_DIM\<close>: the test for the sigil looks at every chunk of a line, not at its first.
\<close>

theorem draw_dims_after_glyph_in_text:
  "append example_msgbox [StrChunk (ascii ''You wake up.'')] sigil_plain
     = Some (Return (), example_msgbox\<lparr>msg_history :=
         [[([183, 32], A_NORMAL), (ascii ''You wake up.'', A_NORMAL)]]\<rparr>) \<and>
   append (example_msgbox\<lparr>msg_history :=
         [[([183, 32], A_NORMAL), (ascii ''You wake up.'', A_NORMAL)]]\<rparr>)
       [StrChunk (10097 # ascii '' is the prompt.'')] sigil_plain
     = Some (Return (), example_msgbox\<lparr>msg_history :=
         [[([183, 32], A_NORMAL), (10097 # ascii '' is the prompt.'', A_NORMAL)],
          [([183, 32], A_NORMAL), (ascii ''You wake up.'', A_NORMAL)]]\<rparr>) \<and>
   draw (example_msgbox\<lparr>msg_history :=
         [[([183, 32], A_NORMAL), (10097 # ascii '' is the prompt.'', A_NORMAL)],
          [([183, 32], A_NORMAL), (ascii ''You wake up.'', A_NORMAL)]]\<rparr>)
     = (Return (),
        [Erase,
         Move 19 0, Addstr [183, 32] A_NORMAL,
           Addstr (10097 # ascii '' is the prompt.'') A_NORMAL,
         Move 18 0, Addstr [183, 32] A_DIM, Addstr (ascii ''You wake up.'') A_DIM,
         Refresh])"
  by (simp add: append_eval draw_eval example_msgbox_def)

section \<open>Paging\<close>

lemma page_up_offset:
  "history_index (snd (page_up m)) =
     (if page_size m < int (length (msg_history m)) - history_index m
      then history_index m + page_size m else history_index m)
   \<and> msg_history (snd (page_up m)) = msg_history m"
  by (simp add: page_up_def Let_def)

lemma page_down_offset:
  "history_index (snd (page_down m)) =
     (if page_size m \<le> history_index m
      then history_index m - page_size m else history_index m)
   \<and> msg_history (snd (page_down m)) = msg_history m"
  by (simp add: page_down_def Let_def)

text \<open>With a page size that is not negative, paging keeps the offset within the scrollback.\<close>

lemma paging_keeps_offset_in_range:
  assumes "0 \<le> page_size m" "0 \<le> history_index m"
    "history_index m \<le> int (length (msg_history m))"
  shows "0 \<le> history_index (snd (page_up m))
    \<and> history_index (snd (page_up m)) \<le> int (length (msg_history (snd (page_up m))))
    \<and> 0 \<le> history_index (snd (page_down m))
    \<and> history_index (snd (page_down m)) \<le> int (length (msg_history (snd (page_down m))))"
  using assms by (simp add: page_up_offset page_down_offset)

text \<open>
  \<open>append\<close> leaves the offset as it is and never shortens a scrollback that is within its
  bound, so the offset stays within the scrollback over \<open>append\<close> as well.
\<close>

lemma length_appendleft:
  "length (msg_history m) \<le> msg_maxlen m \<Longrightarrow>
   length (msg_history m) \<le> length (msg_history (history_appendleft l m))
   \<and> length (msg_history (history_appendleft l m)) \<le> msg_maxlen m"
  by (simp add: history_appendleft_def)

lemma length_history0_append:
  "history0_append c m = Some m' \<Longrightarrow>
   length (msg_history m') = length (msg_history m) \<and> msg_maxlen m' = msg_maxlen m"
  by (auto simp: history0_append_def split: list.splits)

lemma wrap_loop_length:
  assumes "wrap_loop m style phrase lp = Some y" "length (msg_history m) \<le> msg_maxlen m"
  shows "length (msg_history m) \<le> length (msg_history (snd y))
    \<and> length (msg_history (snd y)) \<le> msg_maxlen m"
  using assms
proof (induction rule: wrap_loop.raw_induct[rotated, consumes 1, case_names 1])
  case (1 f m style phrase0 lp y)
  have rec: "length (msg_history m) \<le> length (msg_history (snd y))
      \<and> length (msg_history (snd y)) \<le> msg_maxlen m"
    if "f (history_appendleft indent_line m1) style p 2 = Some y"
      "length (msg_history m1) = length (msg_history m)" "msg_maxlen m1 = msg_maxlen m" for m1 p
  proof -
    have "length (msg_history m1) \<le> msg_maxlen m1" using that(2,3) "1"(3) by simp
    from length_appendleft [OF this, of indent_line]
    have a: "length (msg_history m1) \<le> length (msg_history (history_appendleft indent_line m1))"
      "length (msg_history (history_appendleft indent_line m1)) \<le> msg_maxlen m1" by simp_all
    from "1"(1) [OF that(1)] a(2)
    have "length (msg_history (history_appendleft indent_line m1)) \<le> length (msg_history (snd y))"
      "length (msg_history (snd y)) \<le> msg_maxlen m1" by simp_all
    with a(1) that(2,3) show ?thesis by simp
  qed
  define phrase where "phrase = (if lp = 2 then lstrip phrase0 else phrase0)"
  define ls where "ls = rfind SPACE (slice_to phrase (msg_w m - lp))"
  note body = "1"(2) [unfolded Let_def, folded phrase_def, folded ls_def]
  show ?case
  proof (cases "int (length phrase) \<le> msg_w m - lp")
    case True
    show ?thesis
    proof (cases "history0_append (phrase, style) m")
      case None
      with body True "1"(3) show ?thesis by auto
    next
      case (Some m1)
      with body True have "snd y = m1" by auto
      with length_history0_append [OF Some] "1"(3) show ?thesis by simp
    qed
  next
    case nofit: False
    show ?thesis
    proof (cases "0 < ls")
      case True
      show ?thesis
      proof (cases "history0_append (slice_to phrase ls, style) m")
        case None
        with body nofit True "1"(3) show ?thesis by auto
      next
        case (Some m1)
        with body nofit True
        have "f (history_appendleft indent_line m1) style (slice_from phrase ls) 2 = Some y"
          by simp
        from rec [OF this] length_history0_append [OF Some] show ?thesis by simp
      qed
    next
      case nospace: False
      show ?thesis
      proof (cases "lp = 2")
        case True
        show ?thesis
        proof (cases "history0_append (slice_to phrase (msg_w m - lp), style) m")
          case None
          with body nofit nospace True "1"(3) show ?thesis by auto
        next
          case (Some m1)
          with body nofit nospace True
          have "f (history_appendleft indent_line m1) style
              (slice_from phrase (msg_w m - lp)) 2 = Some y"
            by simp
          from rec [OF this] length_history0_append [OF Some] show ?thesis by simp
        qed
      next
        case False
        with body nofit nospace
        have "f (history_appendleft indent_line m) style phrase 2 = Some y" by simp
        from rec [OF this] show ?thesis by simp
      qed
    qed
  qed
qed

lemma append_chunks_length:
  assumes "append_chunks m lp chunks = Some (r, m')" "length (msg_history m) \<le> msg_maxlen m"
  shows "length (msg_history m) \<le> length (msg_history m')
    \<and> length (msg_history m') \<le> msg_maxlen m"
  using assms
proof (induction chunks arbitrary: m lp)
  case Nil
  then show ?case by simp
next
  case (Cons c chunks)
  show ?case
  proof (cases "chunk_parts c")
    case None
    with Cons.prems show ?thesis by simp
  next
    case (Some ps)
    obtain phrase style where ps: "ps = (phrase, style)" by (cases ps)
    from Cons.prems(1) Some ps obtain r1 m1
      where w: "wrap_loop m style phrase lp = Some (r1, m1)"
      by (auto split: option.splits)
    have len: "length (msg_history m) \<le> length (msg_history m1)"
      "length (msg_history m1) \<le> msg_maxlen m"
      using wrap_loop_length [OF w Cons.prems(2)] by simp_all
    have cap: "msg_maxlen m1 = msg_maxlen m"
      using wrap_loop_frame [OF w]
      by (metis msgbox.select_convs(6) msgbox.surjective msgbox.update_convs(5) snd_conv)
    show ?thesis
    proof (cases r1)
      case (Raise e)
      with Cons.prems(1) Some ps w len show ?thesis by simp
    next
      case (Return lp')
      with Cons.prems(1) Some ps w have "append_chunks m1 lp' chunks = Some (r, m')" by simp
      from Cons.IH [OF this] len cap show ?thesis by simp
    qed
  qed
qed

lemma append_keeps_offset_in_range:
  assumes "0 \<le> history_index m" "history_index m \<le> int (length (msg_history m))"
    "length (msg_history m) \<le> msg_maxlen m" "append m chunks sigil = Some (r, m')"
  shows "0 \<le> history_index m' \<and> history_index m' \<le> int (length (msg_history m'))
    \<and> length (msg_history m') \<le> msg_maxlen m'"
proof -
  let ?m0 = "history_appendleft [(sigil @ [SPACE], A_NORMAL)] m"
  from length_appendleft [OF assms(3), of "[(sigil @ [SPACE], A_NORMAL)]"]
  have a: "length (msg_history m) \<le> length (msg_history ?m0)"
    "length (msg_history ?m0) \<le> msg_maxlen ?m0" by simp_all
  from assms(4) have ac: "append_chunks ?m0 2 chunks = Some (r, m')" by (simp add: append_def)
  from append_chunks_length [OF ac a(2)]
  have b: "length (msg_history ?m0) \<le> length (msg_history m')"
    "length (msg_history m') \<le> msg_maxlen m" by simp_all
  have fr: "m' = m\<lparr>msg_history := msg_history m'\<rparr>" using assms(4) by (rule append_frame)
  have "history_index m' = history_index m" "msg_maxlen m' = msg_maxlen m"
    by (subst fr, simp)+
  with a b assms(1,2) show ?thesis by simp
qed

text \<open>
  C5 at an input where the code departs from it: a box of height 3, so that the page
  size is 1, with two lines whose chunk is the empty string. \<open>page_up\<close> moves the offset to
  1 and draws; \<open>page_down\<close> moves it back to 0 and calls \<open>draw\<close>, which raises \<open>IndexError\<close>
  on the empty text.
\<close>

theorem page_down_raises:
  "Msgbox_init 3 78 = Return \<lparr> msg_h = 3, msg_w = 78, page_size = 1, history_index = 0,
       msg_history = [], msg_maxlen = 30 \<rparr> \<and>
   append \<lparr> msg_h = 3, msg_w = 78, page_size = 1, history_index = 0,
       msg_history = [], msg_maxlen = 30 \<rparr> [StrChunk []] sigil_plain
     = Some (Return (), \<lparr> msg_h = 3, msg_w = 78, page_size = 1, history_index = 0,
         msg_history = [[([183, 32], 0), ([], 0)]], msg_maxlen = 30 \<rparr>) \<and>
   append \<lparr> msg_h = 3, msg_w = 78, page_size = 1, history_index = 0,
       msg_history = [[([183, 32], 0), ([], 0)]], msg_maxlen = 30 \<rparr> [StrChunk []] sigil_plain
     = Some (Return (), \<lparr> msg_h = 3, msg_w = 78, page_size = 1, history_index = 0,
         msg_history = [[([183, 32], 0), ([], 0)], [([183, 32], 0), ([], 0)]],
         msg_maxlen = 30 \<rparr>) \<and>
   page_up \<lparr> msg_h = 3, msg_w = 78, page_size = 1, history_index = 0,
       msg_history = [[([183, 32], 0), ([], 0)], [([183, 32], 0), ([], 0)]],
       msg_maxlen = 30 \<rparr>
     = (Return (), \<lparr> msg_h = 3, msg_w = 78, page_size = 1, history_index = 1,
         msg_history = [[([183, 32], 0), ([], 0)], [([183, 32], 0), ([], 0)]],
         msg_maxlen = 30 \<rparr>) \<and>
   page_down \<lparr> msg_h = 3, msg_w = 78, page_size = 1, history_index = 1,
       msg_history = [[([183, 32], 0), ([], 0)], [([183, 32], 0), ([], 0)]],
       msg_maxlen = 30 \<rparr>
     = (Raise IndexError, \<lparr> msg_h = 3, msg_w = 78, page_size = 1, history_index = 0,
         msg_history = [[([183, 32], 0), ([], 0)], [([183, 32], 0), ([], 0)]],
         msg_maxlen = 30 \<rparr>)"
  by (simp add: Msgbox_init_def append_eval page_up_def page_down_def draw_eval)

section \<open>Reading a command\<close>


lemma append_draw_frame:
  assumes "append_draw win chunks sigil = Some (r, win0)"
  shows "\<exists>hs. win0 = win\<lparr>msgbox := (msgbox win)\<lparr>msg_history := hs\<rparr>\<rparr>"
proof -
  from assms obtain r1 mb where a: "append (msgbox win) chunks sigil = Some (r1, mb)"
    and w: "win0 = win\<lparr>msgbox := mb\<rparr>"
    by (auto simp: append_draw_def split: option.splits result.splits)
  from append_frame [OF a] have "mb = (msgbox win)\<lparr>msg_history := msg_history mb\<rparr>" .
  with w show ?thesis by metis
qed

lemma show_prompt_frame:
  assumes "show_prompt win p = Some (r, win0)"
  shows "\<exists>hs. win0 = win\<lparr>msgbox := (msgbox win)\<lparr>msg_history := hs\<rparr>\<rparr>"
proof (cases p)
  case None
  with assms have "win0 = win" by (simp add: show_prompt_def)
  then have "win0 = win\<lparr>msgbox := (msgbox win)\<lparr>msg_history := msg_history (msgbox win)\<rparr>\<rparr>" by simp
  then show ?thesis ..
next
  case (Some c)
  with assms show ?thesis by (auto simp: show_prompt_def dest: append_draw_frame)
qed




lemma append_single_fits:
  assumes "1 \<le> msg_maxlen m" "chunk_parts c = Some (phrase, style)"
    "2 + int (length (lstrip phrase)) \<le> msg_w m"
  shows "append m [c] sigil = Some (Return (), m\<lparr>msg_history :=
      [(sigil @ [SPACE], A_NORMAL), (lstrip phrase, style)]
        # take (msg_maxlen m - 1) (msg_history m)\<rparr>)"
proof -
  let ?m0 = "history_appendleft [(sigil @ [SPACE], A_NORMAL)] m"
  have m0: "msg_history ?m0 = [(sigil @ [SPACE], A_NORMAL)] # take (msg_maxlen m - 1) (msg_history m)"
    using assms(1) by (simp add: history_appendleft_def take_Cons')
  have "wrap_loop ?m0 style phrase 2 = Some (Return (2 + int (length (lstrip phrase))),
      m\<lparr>msg_history := [(sigil @ [SPACE], A_NORMAL), (lstrip phrase, style)]
        # take (msg_maxlen m - 1) (msg_history m)\<rparr>)"
    using assms(3) m0
    by (subst wrap_loop.simps) (simp add: Let_def history0_append_def history_appendleft_def)
  then show ?thesis using assms(2) by (simp add: append_def)
qed


text \<open>
  C7: in a box at least 4 wide whose scrollback has room for a line, \<open>get\<close> fed the keys
  \<open>g\<close>, \<open>o\<close>, enter returns \<open>go\<close>, and the line at the front of the scrollback is then the
  command sigil followed by the chunk \<open>go\<close> in bold, in front of what the prompt left.
\<close>

theorem get_go_roundtrip:
  assumes "show_prompt win p = Some (Return (), win0)"
    and "4 \<le> msg_w (msgbox win)" and "1 \<le> msg_maxlen (msgbox win)"
  shows "\<exists>win'. get e win p [103, 111, 13] = Some (Return (ascii ''go''), win') \<and>
     msg_history (msgbox win') =
       [(sigil_command @ [SPACE], A_NORMAL), (ascii ''go'', A_BOLD)]
         # take (msg_maxlen (msgbox win) - 1) (msg_history (msgbox win0))"
proof -
  from show_prompt_frame [OF assms(1)] obtain hs
    where win0: "win0 = win\<lparr>msgbox := (msgbox win)\<lparr>msg_history := hs\<rparr>\<rparr>" ..
  let ?mb = "msgbox win0"
  have kl: "key_loop e (win0\<lparr>chars := []\<rparr>) (- 1) [103, 111, 13]
      = Some (Return (), win0\<lparr>chars := [103, 111]\<rparr>)"
    by (simp add: KEY_BACKSPACE_def KEY_UP_def KEY_DOWN_def KEY_PPAGE_def KEY_NPAGE_def)
  have go: "lstrip [103, 111] = [103, 111]" by (simp add: lstrip_def py_isspace_def)
  have "append ?mb [TupleChunk [103, 111] A_BOLD] sigil_command
      = Some (Return (), ?mb\<lparr>msg_history :=
          [(sigil_command @ [SPACE], A_NORMAL), (lstrip [103, 111], A_BOLD)]
            # take (msg_maxlen ?mb - 1) (msg_history ?mb)\<rparr>)"
    using assms(2,3) by (intro append_single_fits) (simp_all add: win0 chunk_parts_def go)
  then have "\<exists>win'. submit (win0\<lparr>chars := [103, 111]\<rparr>) = Some (Return [103, 111], win') \<and>
     msg_history (msgbox win') =
       [(sigil_command @ [SPACE], A_NORMAL), ([103, 111], A_BOLD)]
         # take (msg_maxlen ?mb - 1) (msg_history ?mb)"
    by (simp add: submit_def go Let_def cmd_history_appendleft_def)
  then show ?thesis
    using assms(1) kl by (simp add: get_def ascii_def win0)
qed


lemmas key_defs = KEY_BACKSPACE_def KEY_UP_def KEY_DOWN_def KEY_PPAGE_def KEY_NPAGE_def

lemmas get_eval =
  get_def show_prompt_def append_draw_def submit_def cmd_history_appendleft_def key_defs
  example_window_def example_msgbox_def example_env_def

lemma show_prompt_example:
  "show_prompt example_window (Some (StrChunk (ascii ''What do you do?'')))
   = Some (Return (), example_window\<lparr>msgbox := example_msgbox\<lparr>msg_history :=
       [[([10096, 32], A_NORMAL), (ascii ''What do you do?'', A_NORMAL)]]\<rparr>\<rparr>)"
  by (simp add: get_eval append_eval draw_eval)

lemma get_go_example:
  "get example_env example_window (Some (StrChunk (ascii ''What do you do?''))) [103, 111, 13]
   = Some (Return (ascii ''go''), example_window\<lparr>msgbox := example_msgbox\<lparr>msg_history :=
       [[([10097, 32], A_NORMAL), (ascii ''go'', A_BOLD)],
        [([10096, 32], A_NORMAL), (ascii ''What do you do?'', A_NORMAL)]]\<rparr>,
       cmd_history := [ascii ''go'']\<rparr>)"
  by (simp add: get_eval append_eval draw_eval)

theorem get_go_roundtrip_witness:
  "show_prompt example_window (Some (StrChunk (ascii ''What do you do?'')))
     = Some (Return (), example_window\<lparr>msgbox := example_msgbox\<lparr>msg_history :=
       [[([10096, 32], A_NORMAL), (ascii ''What do you do?'', A_NORMAL)]]\<rparr>\<rparr>) \<and>
   4 \<le> msg_w (msgbox example_window) \<and> 1 \<le> msg_maxlen (msgbox example_window) \<and>
   (\<exists>win'. get example_env example_window (Some (StrChunk (ascii ''What do you do?'')))
        [103, 111, 13] = Some (Return (ascii ''go''), win') \<and>
      msg_history (msgbox win') =
        [[(sigil_command @ [SPACE], A_NORMAL), (ascii ''go'', A_BOLD)],
         [([10096, 32], A_NORMAL), (ascii ''What do you do?'', A_NORMAL)]])"
  using get_go_roundtrip [OF show_prompt_example, of example_env] show_prompt_example
  by (simp add: example_window_def example_msgbox_def)





end
